theory Spec2Isabelle
  imports Main "HOL-Library.List_Lexorder"
begin

section \<open>The directory-tree renderer of \<^verbatim>\<open>Phase2/store_os/struc.py\<close>\<close>

subsection \<open>Python strings\<close>

text \<open>
  A Python \<^verbatim>\<open>str\<close> is a sequence of Unicode code points, and \<^verbatim>\<open>len\<close>, comparison
  and \<^verbatim>\<open>startswith\<close> work on code points. The connectors of the renderer are not ASCII, so a
  string is modelled as the list of its code points. With the lexicographic order on lists,
  \<open><\<close> on \<open>pystr\<close> is Python's string comparison.
\<close>

type_synonym pystr = "nat list"

definition ascii :: "string \<Rightarrow> pystr" where
  "ascii s = map of_char s"

text \<open>\<^verbatim>\<open>s.startswith(p)\<close>.\<close>

definition startswith :: "pystr \<Rightarrow> pystr \<Rightarrow> bool" where
  "startswith s p = (take (length p) s = p)"

text \<open>\<^verbatim>\<open>s.split(sep)\<close> for a separator of one code point.\<close>

fun split_sep :: "nat \<Rightarrow> pystr \<Rightarrow> pystr list" where
  "split_sep sep [] = [[]]"
| "split_sep sep (c # cs) =
     (if c = sep then [] # split_sep sep cs
      else (case split_sep sep cs of
              [] \<Rightarrow> [[c]]
            | p # ps \<Rightarrow> (c # p) # ps))"

text \<open>\<^verbatim>\<open>sep.join(parts)\<close>.\<close>

fun join :: "pystr \<Rightarrow> pystr list \<Rightarrow> pystr" where
  "join sep [] = []"
| "join sep [p] = p"
| "join sep (p # q # ps) = p @ sep @ join sep (q # ps)"

text \<open>The text up to the first newline (code point 10): the first line of a string.\<close>

fun first_line :: "pystr \<Rightarrow> pystr" where
  "first_line [] = []"
| "first_line (c # cs) = (if c = 10 then [] else c # first_line cs)"

subsection \<open>Exceptions\<close>

text \<open>
  The exceptions that can reach \<^verbatim>\<open>print_directory_tree\<close>: the \<^verbatim>\<open>OSError\<close>s of
  \<^verbatim>\<open>os.scandir\<close>, and the \<^verbatim>\<open>RecursionError\<close> that the interpreter raises when
  \<^verbatim>\<open>_walk_directory\<close> is nested deeper than the recursion limit. Each carries the text
  that \<^verbatim>\<open>str(e)\<close> returns. All of them are subclasses of \<^verbatim>\<open>Exception\<close>.
\<close>

datatype exn =
    FileNotFoundError pystr
  | NotADirectoryError pystr
  | PermissionError pystr
  | OSError pystr
  | RecursionError pystr

fun str_exn :: "exn \<Rightarrow> pystr" where
  "str_exn (FileNotFoundError m) = m"
| "str_exn (NotADirectoryError m) = m"
| "str_exn (PermissionError m) = m"
| "str_exn (OSError m) = m"
| "str_exn (RecursionError m) = m"

subsection \<open>\<^verbatim>\<open>pathlib.Path\<close> on POSIX\<close>

text \<open>
  \<^verbatim>\<open>Path(s)\<close> parses its argument: \<^verbatim>\<open>posixpath.splitroot\<close> takes the root off (one slash, or
  exactly two; three or more count as one), the rest is split at \<^verbatim>\<open>/\<close>, and the empty
  components and the components \<^verbatim>\<open>.\<close> are dropped. \<^verbatim>\<open>str\<close> of a path joins the root and
  the components again, and is \<^verbatim>\<open>.\<close> for the empty path. \<^verbatim>\<open>os.scandir\<close> receives a path
  object through \<^verbatim>\<open>os.fspath\<close>, which is its \<^verbatim>\<open>str\<close>.
\<close>

datatype PosixPath = PosixPath (path_root: pystr) (path_tail: "pystr list")

definition splitroot :: "pystr \<Rightarrow> pystr \<times> pystr" where
  "splitroot p =
     (if take 1 p \<noteq> ascii ''/'' then ([], p)
      else if take 1 (drop 1 p) \<noteq> ascii ''/'' \<or> take 1 (drop 2 p) = ascii ''/''
           then (ascii ''/'', drop 1 p)
      else (take 2 p, drop 2 p))"

definition Path :: "pystr \<Rightarrow> PosixPath" where
  "Path s =
     (if s = [] then PosixPath [] []
      else (case splitroot s of
              (root, rel) \<Rightarrow>
                PosixPath root
                  (filter (\<lambda>x. x \<noteq> [] \<and> x \<noteq> ascii ''.'') (split_sep 47 rel))))"

definition str_Path :: "PosixPath \<Rightarrow> pystr" where
  "str_Path p =
     (let s = path_root p @ join (ascii ''/'') (path_tail p)
      in if s = [] then ascii ''.'' else s)"

text \<open>\<^verbatim>\<open>Path.name\<close>: the final component, empty when there is none.\<close>

definition Path_name :: "PosixPath \<Rightarrow> pystr" where
  "Path_name p = (if path_tail p = [] then [] else last (path_tail p))"

subsection \<open>The file system and the interpreter\<close>

text \<open>
  An \<^verbatim>\<open>os.DirEntry\<close> with the three attributes the renderer reads; \<^verbatim>\<open>is_dir()\<close> is the
  flag of the entry.
\<close>

record DirEntry =
  name :: pystr
  path :: pystr
  is_dir :: bool

text \<open>
  What the renderer calls and does not define: \<^verbatim>\<open>os.scandir\<close>, which lists a directory
  (in any order) or raises; \<^verbatim>\<open>str.lower\<close>, whose Unicode case mapping is left open; and the
  number of nested activations of \<^verbatim>\<open>_walk_directory\<close> that the interpreter's recursion
  limit leaves room for.
\<close>

record world =
  os_scandir :: "pystr \<Rightarrow> exn + DirEntry list"
  str_lower :: "pystr \<Rightarrow> pystr"
  recursion_limit :: nat

subsection \<open>\<^verbatim>\<open>class DirectoryTree\<close>\<close>

record DirectoryTree =
  root_dir :: PosixPath
  tree_str :: pystr
  indent :: pystr
  branch :: pystr
  tee :: pystr
  last_s :: pystr

text \<open>\<^verbatim>\<open>__init__\<close>. The field \<^verbatim>\<open>last\<close> is \<open>last_s\<close> here.\<close>

definition DirectoryTree_init :: "pystr \<Rightarrow> DirectoryTree" where
  "DirectoryTree_init root =
     \<lparr> root_dir = Path root,
       tree_str = [],
       indent = ascii ''    '',
       branch = [0x2502, 32, 32, 32],
       tee = [0x251C, 0x2500, 0x2500, 32],
       last_s = [0x2514, 0x2500, 0x2500, 32] \<rparr>"

text \<open>
  A method returns the object as it has left it, together with its result or the
  exception it raised: \<^verbatim>\<open>self.tree_str\<close> keeps what was appended before an exception.
\<close>

type_synonym 'a outcome = "(exn + 'a) \<times> DirectoryTree"

text \<open>
  The \<^verbatim>\<open>for idx, entry in enumerate(entries)\<close> loop of \<^verbatim>\<open>_walk_directory\<close>; \<open>walk\<close> is
  the recursive call and \<open>n\<close> is \<^verbatim>\<open>len(entries)\<close>.
\<close>

fun for_entries ::
  "(pystr \<Rightarrow> pystr \<Rightarrow> DirectoryTree \<Rightarrow> unit outcome) \<Rightarrow> pystr \<Rightarrow> nat \<Rightarrow>
   (nat \<times> DirEntry) list \<Rightarrow> DirectoryTree \<Rightarrow> unit outcome" where
  "for_entries walk prefix n [] self = (Inr (), self)"
| "for_entries walk prefix n ((idx, entry) # rest) self =
     (let is_last = (int idx = int n - 1);
          connector = (if is_last then last_s self else tee self);
          self1 = self\<lparr>tree_str := tree_str self @ prefix @ connector @ name entry @ [10]\<rparr>
      in if is_dir entry then
           (let next_prefix = prefix @ (if is_last then ascii ''    '' else branch self)
            in case walk (path entry) next_prefix self1 of
                 (Inl e, self2) \<Rightarrow> (Inl e, self2)
               | (Inr u, self2) \<Rightarrow> for_entries walk prefix n rest self2)
         else for_entries walk prefix n rest self1)"

text \<open>
  \<^verbatim>\<open>_walk_directory\<close>. The first argument after the world is the number of nested
  activations still allowed: at 0 the call raises \<^verbatim>\<open>RecursionError\<close>.
\<close>

primrec walk_directory ::
  "world \<Rightarrow> nat \<Rightarrow> pystr \<Rightarrow> pystr \<Rightarrow> DirectoryTree \<Rightarrow> unit outcome" where
  "walk_directory w 0 current_path prefix self =
     (Inl (RecursionError (ascii ''maximum recursion depth exceeded'')), self)"
| "walk_directory w (Suc depth) current_path prefix self =
     (case os_scandir w current_path of
        Inl e \<Rightarrow> (Inl e, self)
      | Inr listing \<Rightarrow>
          (let entries = sort_key (\<lambda>e. str_lower w (name e)) listing;
               entries = filter (\<lambda>e. \<not> startswith (name e) (ascii ''.'')) entries
           in for_entries (walk_directory w depth) prefix (length entries)
                (enumerate 0 entries) self))"

definition generate_tree :: "world \<Rightarrow> DirectoryTree \<Rightarrow> pystr outcome" where
  "generate_tree w self =
     (let self1 = self\<lparr>tree_str := str_Path (root_dir self) @ [10]\<rparr>
      in case walk_directory w (recursion_limit w) (str_Path (root_dir self1)) [] self1 of
           (Inl e, self2) \<Rightarrow> (Inl e, self2)
         | (Inr u, self2) \<Rightarrow> (Inr (tree_str self2), self2))"

text \<open>\<^verbatim>\<open>print(s)\<close> writes \<open>s\<close> and a newline to standard output.\<close>

definition py_print :: "pystr \<Rightarrow> pystr" where
  "py_print s = s @ [10]"

text \<open>
  \<^verbatim>\<open>print_directory_tree\<close>: the text written to standard output, or the exception that
  leaves the function.
\<close>

definition print_directory_tree :: "world \<Rightarrow> pystr \<Rightarrow> exn + pystr" where
  "print_directory_tree w p =
     (case fst (generate_tree w (DirectoryTree_init p)) of
        Inr s \<Rightarrow> Inr (py_print s)
      | Inl e \<Rightarrow> Inr (py_print (ascii ''Error generating directory tree: '' @ str_exn e)))"

subsection \<open>Notions of the specification\<close>

text \<open>A hidden entry is one whose name begins with \<^verbatim>\<open>.\<close>; the others are visible.\<close>

definition hidden :: "DirEntry \<Rightarrow> bool" where
  "hidden e = startswith (name e) (ascii ''.'')"

text \<open>
  Steps b and c of the specification's algorithm, in its order: exclude the hidden children,
  then sort the remaining ones by lower-cased name.
\<close>

definition visible_sorted :: "world \<Rightarrow> DirEntry list \<Rightarrow> DirEntry list" where
  "visible_sorted w listing =
     sort_key (\<lambda>e. str_lower w (name e)) (filter (\<lambda>e. \<not> hidden e) listing)"

text \<open>The walk of the specification: \<^verbatim>\<open>_walk_directory\<close> with steps b and c in that order.\<close>

primrec spec_walk_directory ::
  "world \<Rightarrow> nat \<Rightarrow> pystr \<Rightarrow> pystr \<Rightarrow> DirectoryTree \<Rightarrow> unit outcome" where
  "spec_walk_directory w 0 current_path prefix self =
     (Inl (RecursionError (ascii ''maximum recursion depth exceeded'')), self)"
| "spec_walk_directory w (Suc depth) current_path prefix self =
     (case os_scandir w current_path of
        Inl e \<Rightarrow> (Inl e, self)
      | Inr listing \<Rightarrow>
          (let entries = visible_sorted w listing
           in for_entries (spec_walk_directory w depth) prefix (length entries)
                (enumerate 0 entries) self))"

definition spec_generate_tree :: "world \<Rightarrow> DirectoryTree \<Rightarrow> pystr outcome" where
  "spec_generate_tree w self =
     (let self1 = self\<lparr>tree_str := str_Path (root_dir self) @ [10]\<rparr>
      in case spec_walk_directory w (recursion_limit w) (str_Path (root_dir self1)) [] self1 of
           (Inl e, self2) \<Rightarrow> (Inl e, self2)
         | (Inr u, self2) \<Rightarrow> (Inr (tree_str self2), self2))"

text \<open>
  The visible entries reachable by recursive descent from a directory, in the order of the
  descent, at most \<open>depth\<close> levels down. A row is an entry together with one flag for each
  directory entered between the start and the entry, outermost first (was that directory
  the last visible entry of its parent?), and the flag of the entry itself. The number of
  flags is the number of directories the entry is nested in below the start.
\<close>

type_synonym row = "bool list \<times> bool \<times> DirEntry"

primrec rows :: "world \<Rightarrow> nat \<Rightarrow> pystr \<Rightarrow> bool list \<Rightarrow> row list" where
  "rows w 0 current_path anc = []"
| "rows w (Suc depth) current_path anc =
     (case os_scandir w current_path of
        Inl e \<Rightarrow> []
      | Inr listing \<Rightarrow>
          (let entries = visible_sorted w listing; n = length entries
           in concat (map (\<lambda>(idx, entry).
                 (anc, int idx = int n - 1, entry) #
                 (if is_dir entry
                  then rows w depth (path entry) (anc @ [int idx = int n - 1])
                  else []))
               (enumerate 0 entries))))"

text \<open>
  The line of a row: one group of four characters for each ancestor (four spaces below a
  last sibling, a bar and three spaces otherwise), the connector, the name, a newline.
\<close>

definition depth_group :: "bool \<Rightarrow> pystr" where
  "depth_group ancestor_last =
     (if ancestor_last then [32, 32, 32, 32] else [0x2502, 32, 32, 32])"

definition connector_of :: "bool \<Rightarrow> pystr" where
  "connector_of is_last =
     (if is_last then [0x2514, 0x2500, 0x2500, 32] else [0x251C, 0x2500, 0x2500, 32])"

fun row_text :: "row \<Rightarrow> pystr" where
  "row_text (anc, is_last, entry) =
     concat (map depth_group anc) @ connector_of is_last @ name entry @ [10]"


text \<open>The file system with the hidden entries removed from every listing.\<close>

definition strip_hidden :: "world \<Rightarrow> world" where
  "strip_hidden w =
     w\<lparr>os_scandir := (\<lambda>p. case os_scandir w p of
                            Inl e \<Rightarrow> Inl e
                          | Inr listing \<Rightarrow> Inr (filter (\<lambda>e. \<not> hidden e) listing))\<rparr>"

text \<open>The object has the glyphs that \<^verbatim>\<open>__init__\<close> sets; no method changes them.\<close>

definition initialised :: "DirectoryTree \<Rightarrow> bool" where
  "initialised self \<longleftrightarrow>
     indent self = ascii ''    '' \<and> branch self = [0x2502, 32, 32, 32] \<and>
     tee self = [0x251C, 0x2500, 0x2500, 32] \<and> last_s self = [0x2514, 0x2500, 0x2500, 32]"

text \<open>
  A method obeys the accumulator law when its result does not depend on the text already
  in \<^verbatim>\<open>self.tree_str\<close> and it changes the object only by appending to that text.
\<close>

definition acc_law :: "(DirectoryTree \<Rightarrow> unit outcome) \<Rightarrow> bool" where
  "acc_law f \<longleftrightarrow>
     (\<forall>s. f s = (fst (f (s\<lparr>tree_str := []\<rparr>)),
                 s\<lparr>tree_str := tree_str s @ tree_str (snd (f (s\<lparr>tree_str := []\<rparr>)))\<rparr>))"

subsection \<open>The example of the specification\<close>

text \<open>
  A file system for the examples: the tree of the specification's end-to-end example under
  \<^verbatim>\<open>root\<close>; inside \<^verbatim>\<open>root/.hidden\<close> only hidden entries, one of them the directory
  \<^verbatim>\<open>.cache\<close> with one visible file; and a directory \<^verbatim>\<open>locked\<close> whose subdirectory
  \<^verbatim>\<open>priv\<close> cannot be listed. \<open>lower_ascii\<close> is \<^verbatim>\<open>str.lower\<close> on ASCII letters.
\<close>

definition lower_ascii :: "pystr \<Rightarrow> pystr" where
  "lower_ascii s = map (\<lambda>c. if 65 \<le> c \<and> c \<le> 90 then c + 32 else c) s"

definition example_scandir :: "pystr \<Rightarrow> exn + DirEntry list" where
  "example_scandir p =
     (if p = ascii ''root'' then
        Inr [\<lparr>name = ascii ''.hidden'', path = ascii ''root/.hidden'', is_dir = True\<rparr>,
             \<lparr>name = ascii ''b.txt'', path = ascii ''root/b.txt'', is_dir = False\<rparr>,
             \<lparr>name = ascii ''A'', path = ascii ''root/A'', is_dir = True\<rparr>]
      else if p = ascii ''root/A'' then
        Inr [\<lparr>name = ascii ''c.txt'', path = ascii ''root/A/c.txt'', is_dir = False\<rparr>]
      else if p = ascii ''root/.hidden'' then
        Inr [\<lparr>name = ascii ''.keep'', path = ascii ''root/.hidden/.keep'', is_dir = False\<rparr>,
             \<lparr>name = ascii ''.cache'', path = ascii ''root/.hidden/.cache'', is_dir = True\<rparr>]
      else if p = ascii ''root/.hidden/.cache'' then
        Inr [\<lparr>name = ascii ''data'', path = ascii ''root/.hidden/.cache/data'', is_dir = False\<rparr>]
      else if p = ascii ''locked'' then
        Inr [\<lparr>name = ascii ''a'', path = ascii ''locked/a'', is_dir = False\<rparr>,
             \<lparr>name = ascii ''priv'', path = ascii ''locked/priv'', is_dir = True\<rparr>,
             \<lparr>name = ascii ''z'', path = ascii ''locked/z'', is_dir = False\<rparr>]
      else if p = ascii ''locked/priv'' then
        Inl (PermissionError (ascii ''[Errno 13] Permission denied''))
      else Inl (FileNotFoundError (ascii ''[Errno 2] No such file or directory'')))"

definition example_world :: world where
  "example_world =
     \<lparr> os_scandir = example_scandir, str_lower = lower_ascii, recursion_limit = 1000 \<rparr>"

text \<open>The text of the specification's end-to-end example.\<close>

definition example_tree :: pystr where
  "example_tree =
     ascii ''root'' @ [10] @
     [0x251C, 0x2500, 0x2500, 32] @ ascii ''A'' @ [10] @
     [0x2502, 32, 32, 32, 0x2514, 0x2500, 0x2500, 32] @ ascii ''c.txt'' @ [10] @
     [0x2514, 0x2500, 0x2500, 32] @ ascii ''b.txt'' @ [10]"

section \<open>Properties\<close>

subsection \<open>One step of the loop\<close>

declare for_entries.simps(2) [simp del]

lemma for_entries_file:
  "\<not> is_dir entry \<Longrightarrow>
   for_entries walk prefix n ((idx, entry) # rest) self =
     for_entries walk prefix n rest
       (self\<lparr>tree_str := tree_str self @ prefix @
          (if int idx = int n - 1 then last_s self else tee self) @ name entry @ [10]\<rparr>)"
  by (simp only: for_entries.simps(2) Let_def if_False)

lemma for_entries_dir:
  "is_dir entry \<Longrightarrow>
   for_entries walk prefix n ((idx, entry) # rest) self =
     (case walk (path entry)
             (prefix @ (if int idx = int n - 1 then ascii ''    '' else branch self))
             (self\<lparr>tree_str := tree_str self @ prefix @
                (if int idx = int n - 1 then last_s self else tee self) @ name entry @ [10]\<rparr>) of
        (Inl e, self2) \<Rightarrow> (Inl e, self2)
      | (Inr u, self2) \<Rightarrow> for_entries walk prefix n rest self2)"
  by (simp only: for_entries.simps(2) Let_def if_True)

subsection \<open>The example of the specification, evaluated\<close>

lemma example_root_listing:
  "os_scandir example_world (ascii ''root'') =
     Inr [\<lparr>name = ascii ''.hidden'', path = ascii ''root/.hidden'', is_dir = True\<rparr>,
          \<lparr>name = ascii ''b.txt'', path = ascii ''root/b.txt'', is_dir = False\<rparr>,
          \<lparr>name = ascii ''A'', path = ascii ''root/A'', is_dir = True\<rparr>]"
  by (simp add: example_world_def example_scandir_def)

lemma example_A_listing:
  "os_scandir example_world (ascii ''root/A'') =
     Inr [\<lparr>name = ascii ''c.txt'', path = ascii ''root/A/c.txt'', is_dir = False\<rparr>]"
  by (simp add: example_world_def example_scandir_def ascii_def)

lemma example_root_entries:
  "filter (\<lambda>e. \<not> startswith (name e) (ascii ''.''))
     (sort_key (\<lambda>e. str_lower example_world (name e))
        [\<lparr>name = ascii ''.hidden'', path = ascii ''root/.hidden'', is_dir = True\<rparr>,
         \<lparr>name = ascii ''b.txt'', path = ascii ''root/b.txt'', is_dir = False\<rparr>,
         \<lparr>name = ascii ''A'', path = ascii ''root/A'', is_dir = True\<rparr>]) =
   [\<lparr>name = ascii ''A'', path = ascii ''root/A'', is_dir = True\<rparr>,
    \<lparr>name = ascii ''b.txt'', path = ascii ''root/b.txt'', is_dir = False\<rparr>]"
  by (simp add: example_world_def ascii_def lower_ascii_def startswith_def)

lemma example_A_entries:
  "filter (\<lambda>e. \<not> startswith (name e) (ascii ''.''))
     (sort_key (\<lambda>e. str_lower example_world (name e))
        [\<lparr>name = ascii ''c.txt'', path = ascii ''root/A/c.txt'', is_dir = False\<rparr>]) =
   [\<lparr>name = ascii ''c.txt'', path = ascii ''root/A/c.txt'', is_dir = False\<rparr>]"
  by (simp add: ascii_def startswith_def)

lemma example_walk_A:
  "walk_directory example_world (Suc d) (ascii ''root/A'') prefix self =
     (Inr (), self\<lparr>tree_str := tree_str self @ prefix @ last_s self @ ascii ''c.txt'' @ [10]\<rparr>)"
  apply (simp only: walk_directory.simps example_A_listing sum.case Let_def example_A_entries)
  apply (simp add: for_entries_file)
  done

lemma example_walk_root:
  assumes "2 \<le> d"
  shows "walk_directory example_world d (ascii ''root'') prefix self =
     (Inr (), self\<lparr>tree_str := tree_str self @ prefix @ tee self @ ascii ''A'' @ [10]
         @ prefix @ branch self @ last_s self @ ascii ''c.txt'' @ [10]
         @ prefix @ last_s self @ ascii ''b.txt'' @ [10]\<rparr>)"
proof -
  from assms obtain k where d: "d = Suc (Suc k)"
    by (metis Suc_le_D numeral_2_eq_2 Suc_le_mono)
  show ?thesis
    unfolding d
    apply (simp only: walk_directory.simps(2)[of _ "Suc k"] example_root_listing sum.case
        Let_def example_root_entries)
    apply (simp add: for_entries_file for_entries_dir example_walk_A del: walk_directory.simps(2))
    done
qed

lemma example_root_path: "str_Path (Path (ascii ''root'')) = ascii ''root''"
  by (simp add: str_Path_def Path_def splitroot_def ascii_def)

lemma example_limit: "recursion_limit example_world = 1000"
  by (simp add: example_world_def)

text \<open>
  C1. For the tree \<^verbatim>\<open>root\<close> with the children \<^verbatim>\<open>.hidden/\<close>, \<^verbatim>\<open>b.txt\<close> and \<^verbatim>\<open>A/\<close> (which
  holds \<^verbatim>\<open>c.txt\<close>), \<^verbatim>\<open>generate_tree\<close> returns exactly four lines: the root; \<^verbatim>\<open>A\<close> with
  the connector of a sibling that is not the last; \<^verbatim>\<open>c.txt\<close> behind the bar and three
  spaces, with the connector of the last sibling; \<^verbatim>\<open>b.txt\<close> with the connector of the last
  sibling. \<^verbatim>\<open>.hidden\<close> does not appear.
\<close>

theorem example_rendering:
  "fst (generate_tree example_world (DirectoryTree_init (ascii ''root''))) =
     Inr (concat (map (\<lambda>line. line @ [10])
       [ascii ''root'',
        [0x251C, 0x2500, 0x2500, 32] @ ascii ''A'',
        [0x2502, 32, 32, 32] @ [0x2514, 0x2500, 0x2500, 32] @ ascii ''c.txt'',
        [0x2514, 0x2500, 0x2500, 32] @ ascii ''b.txt'']))"
  unfolding generate_tree_def
  by (simp add: example_root_path example_walk_root example_limit DirectoryTree_init_def)

subsection \<open>The loop over a concatenation\<close>

lemma for_entries_append:
  "for_entries walk prefix n (xs @ ys) self =
     (case for_entries walk prefix n xs self of
        (Inl e, s) \<Rightarrow> (Inl e, s)
      | (Inr u, s) \<Rightarrow> for_entries walk prefix n ys s)"
proof (induction xs arbitrary: self)
  case Nil
  show ?case by simp
next
  case (Cons x xs)
  obtain idx entry where x: "x = (idx, entry)" by (cases x)
  show ?case
  proof (cases "is_dir entry")
    case False
    show ?thesis
      unfolding x append_Cons by (simp only: for_entries_file[OF False] Cons.IH)
  next
    case True
    let ?call = "walk (path entry)
             (prefix @ (if int idx = int n - 1 then ascii ''    '' else branch self))
             (self\<lparr>tree_str := tree_str self @ prefix @
                (if int idx = int n - 1 then last_s self else tee self) @ name entry @ [10]\<rparr>)"
    obtain r s2 where w: "?call = (r, s2)" by (cases ?call)
    show ?thesis
      unfolding x append_Cons
      by (cases r) (simp_all only: for_entries_dir[OF True] w prod.case sum.case Cons.IH)
  qed
qed

subsection \<open>The accumulator law\<close>

lemma acc_lawD:
  assumes "acc_law f"
  obtains r t where "\<And>a. f (s\<lparr>tree_str := a\<rparr>) = (r, s\<lparr>tree_str := a @ t\<rparr>)"
proof -
  let ?r = "fst (f (s\<lparr>tree_str := []\<rparr>))" and ?t = "tree_str (snd (f (s\<lparr>tree_str := []\<rparr>)))"
  have "f (s\<lparr>tree_str := a\<rparr>) = (?r, s\<lparr>tree_str := a @ ?t\<rparr>)" for a
    using assms[unfolded acc_law_def, rule_format, of "s\<lparr>tree_str := a\<rparr>"] by simp
  then show thesis by (rule that)
qed

lemma acc_lawI:
  assumes "\<And>s. \<exists>r t. \<forall>a. f (s\<lparr>tree_str := a\<rparr>) = (r, s\<lparr>tree_str := a @ t\<rparr>)"
  shows "acc_law f"
  unfolding acc_law_def
proof
  fix s
  from assms[of s] obtain r t where *: "\<And>a. f (s\<lparr>tree_str := a\<rparr>) = (r, s\<lparr>tree_str := a @ t\<rparr>)"
    by blast
  have "f s = (r, s\<lparr>tree_str := tree_str s @ t\<rparr>)"
    using *[of "tree_str s"] by simp
  moreover have "f (s\<lparr>tree_str := []\<rparr>) = (r, s\<lparr>tree_str := t\<rparr>)"
    using *[of "[]"] by simp
  ultimately show "f s = (fst (f (s\<lparr>tree_str := []\<rparr>)),
                 s\<lparr>tree_str := tree_str s @ tree_str (snd (f (s\<lparr>tree_str := []\<rparr>)))\<rparr>)"
    by simp
qed

lemma acc_law_appends:
  assumes "acc_law f"
  obtains r t where "f s = (r, s\<lparr>tree_str := tree_str s @ t\<rparr>)"
proof -
  obtain r t where "\<And>a. f (s\<lparr>tree_str := a\<rparr>) = (r, s\<lparr>tree_str := a @ t\<rparr>)"
    using acc_lawD[OF assms, of s] by blast
  from this[of "tree_str s"] have "f s = (r, s\<lparr>tree_str := tree_str s @ t\<rparr>)" by simp
  then show thesis by (rule that)
qed

lemma for_entries_acc:
  assumes W: "\<And>p pre. acc_law (walk p pre)"
  shows "acc_law (for_entries walk prefix n ies)"
proof (induction ies)
  case Nil
  show ?case by (rule acc_lawI, rule exI, rule exI[of _ "[]"]) simp
next
  case (Cons ie ies)
  obtain idx entry where ie: "ie = (idx, entry)" by (cases ie)
  show ?case
  proof (rule acc_lawI)
    fix s :: DirectoryTree
    define l where "l = prefix @ (if int idx = int n - 1 then last_s s else tee s) @ name entry @ [10]"
    define np where "np = prefix @ (if int idx = int n - 1 then ascii ''    '' else branch s)"
    obtain r2 t2 where
      rest: "\<And>a. for_entries walk prefix n ies (s\<lparr>tree_str := a\<rparr>) = (r2, s\<lparr>tree_str := a @ t2\<rparr>)"
      using acc_lawD[OF Cons.IH, of s] by blast
    show "\<exists>r t. \<forall>a. for_entries walk prefix n (ie # ies) (s\<lparr>tree_str := a\<rparr>) = (r, s\<lparr>tree_str := a @ t\<rparr>)"
    proof (cases "is_dir entry")
      case False
      have step: "for_entries walk prefix n (ie # ies) (s\<lparr>tree_str := a\<rparr>) =
                  for_entries walk prefix n ies (s\<lparr>tree_str := a @ l\<rparr>)" for a
        unfolding ie l_def by (simp add: for_entries_file[OF False])
      have "for_entries walk prefix n (ie # ies) (s\<lparr>tree_str := a\<rparr>) = (r2, s\<lparr>tree_str := a @ l @ t2\<rparr>)" for a
        unfolding step using rest[of "a @ l"] by simp
      then show ?thesis by blast
    next
      case True
      obtain r1 t1 where
        sub: "\<And>a. walk (path entry) np (s\<lparr>tree_str := a\<rparr>) = (r1, s\<lparr>tree_str := a @ t1\<rparr>)"
        using acc_lawD[OF W[of "path entry" np], of s] by blast
      have step: "for_entries walk prefix n (ie # ies) (s\<lparr>tree_str := a\<rparr>) =
                  (case walk (path entry) np (s\<lparr>tree_str := a @ l\<rparr>) of
                     (Inl e, self2) \<Rightarrow> (Inl e, self2)
                   | (Inr u, self2) \<Rightarrow> for_entries walk prefix n ies self2)" for a
        unfolding ie l_def np_def by (simp add: for_entries_dir[OF True])
      show ?thesis
      proof (cases r1)
        case (Inl e)
        have "for_entries walk prefix n (ie # ies) (s\<lparr>tree_str := a\<rparr>) = (Inl e, s\<lparr>tree_str := a @ l @ t1\<rparr>)" for a
          unfolding step using sub[of "a @ l"] Inl by simp
        then show ?thesis by blast
      next
        case (Inr u)
        have "for_entries walk prefix n (ie # ies) (s\<lparr>tree_str := a\<rparr>) = (r2, s\<lparr>tree_str := a @ l @ t1 @ t2\<rparr>)" for a
          unfolding step using sub[of "a @ l"] rest[of "a @ l @ t1"] Inr by simp
        then show ?thesis by blast
      qed
    qed
  qed
qed

lemma walk_directory_Suc:
  "os_scandir w p = Inr listing \<Longrightarrow>
   walk_directory w (Suc d) p prefix =
     for_entries (walk_directory w d) prefix
       (length (filter (\<lambda>e. \<not> startswith (name e) (ascii ''.''))
                  (sort_key (\<lambda>e. str_lower w (name e)) listing)))
       (enumerate 0 (filter (\<lambda>e. \<not> startswith (name e) (ascii ''.''))
                  (sort_key (\<lambda>e. str_lower w (name e)) listing)))"
  by (rule ext) (simp add: Let_def)

lemma walk_directory_acc: "acc_law (walk_directory w d p prefix)"
proof (induction d arbitrary: p prefix)
  case 0
  show ?case by (rule acc_lawI, rule exI, rule exI[of _ "[]"]) simp
next
  case (Suc d)
  show ?case
  proof (cases "os_scandir w p")
    case (Inl e)
    show ?thesis by (rule acc_lawI, rule exI, rule exI[of _ "[]"]) (simp add: Inl)
  next
    case (Inr listing)
    show ?thesis
      unfolding walk_directory_Suc[OF Inr] by (rule for_entries_acc) (rule Suc.IH)
  qed
qed

lemma walk_directory_appends:
  obtains r t where "walk_directory w d p prefix self = (r, self\<lparr>tree_str := tree_str self @ t\<rparr>)"
  using acc_law_appends[OF walk_directory_acc] by blast

lemma for_entries_walk_appends:
  obtains r t where
    "for_entries (walk_directory w d) prefix n ies self = (r, self\<lparr>tree_str := tree_str self @ t\<rparr>)"
  using acc_law_appends[OF for_entries_acc[of "walk_directory w d"], OF walk_directory_acc] by blast

subsection \<open>Calling \<^verbatim>\<open>generate_tree\<close> again\<close>

lemma generate_tree_frame:
  obtains r t where "generate_tree w self = (r, self\<lparr>tree_str := t\<rparr>)"
proof -
  define self1 where "self1 = self\<lparr>tree_str := str_Path (root_dir self) @ [10]\<rparr>"
  obtain r t where
    wd: "walk_directory w (recursion_limit w) (str_Path (root_dir self1)) [] self1 =
         (r, self1\<lparr>tree_str := tree_str self1 @ t\<rparr>)"
    by (rule walk_directory_appends)
  have s1: "self1\<lparr>tree_str := tree_str self1 @ t\<rparr> = self\<lparr>tree_str := tree_str self1 @ t\<rparr>"
    by (simp add: self1_def)
  have gt: "generate_tree w self =
    (case walk_directory w (recursion_limit w) (str_Path (root_dir self1)) [] self1 of
           (Inl e, self2) \<Rightarrow> (Inl e, self2)
         | (Inr u, self2) \<Rightarrow> (Inr (tree_str self2), self2))"
    by (simp add: generate_tree_def self1_def Let_def)
  show thesis
  proof (cases r)
    case (Inl e)
    have "generate_tree w self = (Inl e, self\<lparr>tree_str := tree_str self1 @ t\<rparr>)"
      unfolding gt wd s1 Inl by simp
    then show thesis by (rule that)
  next
    case (Inr u)
    have "generate_tree w self =
            (Inr (tree_str self1 @ t), self\<lparr>tree_str := tree_str self1 @ t\<rparr>)"
      unfolding gt wd s1 Inr by simp
    then show thesis by (rule that)
  qed
qed

lemma generate_tree_ignores_tree_str:
  "generate_tree w (self\<lparr>tree_str := t\<rparr>) = generate_tree w self"
  by (simp add: generate_tree_def)

text \<open>
  C8. A second call of \<^verbatim>\<open>generate_tree\<close> on the object that the first call has left, in
  the same file system, has the outcome of the first call: the same text (or the same
  exception), and the same object. Nothing accumulates in \<^verbatim>\<open>tree_str\<close>.
\<close>

theorem generate_tree_twice:
  "generate_tree w (snd (generate_tree w self)) = generate_tree w self"
proof -
  obtain r t where "generate_tree w self = (r, self\<lparr>tree_str := t\<rparr>)"
    by (rule generate_tree_frame)
  then show ?thesis
    by (simp add: generate_tree_ignores_tree_str)
qed

subsection \<open>Sorting and filtering in either order\<close>

lemma entries_either_order:
  "filter (\<lambda>e. \<not> startswith (name e) (ascii ''.''))
     (sort_key (\<lambda>e. str_lower w (name e)) listing) = visible_sorted w listing"
  by (simp add: visible_sorted_def hidden_def filter_sort)

lemma walk_directory_visible_sorted:
  "os_scandir w p = Inr listing \<Longrightarrow>
   walk_directory w (Suc d) p prefix =
     for_entries (walk_directory w d) prefix (length (visible_sorted w listing))
       (enumerate 0 (visible_sorted w listing))"
  by (simp add: walk_directory_Suc entries_either_order)

lemma spec_walk_directory_eq: "spec_walk_directory w d = walk_directory w d"
proof (induction d)
  case 0
  show ?case by (intro ext) simp
next
  case (Suc d)
  show ?case
  proof (intro ext)
    fix p prefix self
    show "spec_walk_directory w (Suc d) p prefix self = walk_directory w (Suc d) p prefix self"
    proof (cases "os_scandir w p")
      case (Inl e)
      then show ?thesis by simp
    next
      case (Inr listing)
      show ?thesis
        unfolding walk_directory_visible_sorted[OF Inr]
        by (simp add: Inr Suc.IH Let_def)
    qed
  qed
qed

text \<open>
  C9. Rendering with the children filtered first and sorted afterwards, as the
  specification's algorithm has it, has the same outcome as the code, which sorts first
  and filters afterwards: the two lists of entries are equal in every directory.
\<close>

theorem sort_filter_order_irrelevant:
  "spec_generate_tree w self = generate_tree w self \<and>
   sort_key (\<lambda>e. str_lower w (name e)) (filter (\<lambda>e. \<not> startswith (name e) (ascii ''.'')) listing) =
   filter (\<lambda>e. \<not> startswith (name e) (ascii ''.'')) (sort_key (\<lambda>e. str_lower w (name e)) listing)"
  by (simp add: spec_generate_tree_def generate_tree_def spec_walk_directory_eq filter_sort)

subsection \<open>Hidden entries\<close>

lemma walk_directory_strip_hidden: "walk_directory (strip_hidden w) d = walk_directory w d"
proof (induction d)
  case 0
  show ?case by (intro ext) simp
next
  case (Suc d)
  show ?case
  proof (intro ext)
    fix p prefix self
    show "walk_directory (strip_hidden w) (Suc d) p prefix self =
          walk_directory w (Suc d) p prefix self"
    proof (cases "os_scandir w p")
      case (Inl e)
      then show ?thesis by (simp add: strip_hidden_def)
    next
      case (Inr listing)
      have s: "os_scandir (strip_hidden w) p = Inr (filter (\<lambda>e. \<not> hidden e) listing)"
        by (simp add: strip_hidden_def Inr)
      have l: "str_lower (strip_hidden w) = str_lower w"
        by (simp add: strip_hidden_def)
      have v: "visible_sorted (strip_hidden w) (filter (\<lambda>e. \<not> hidden e) listing) =
               visible_sorted w listing"
        by (simp add: visible_sorted_def l)
      show ?thesis
        unfolding walk_directory_visible_sorted[OF Inr] walk_directory_visible_sorted[OF s] v Suc.IH
        by (rule refl)
    qed
  qed
qed

lemma generate_tree_strip_hidden: "generate_tree (strip_hidden w) self = generate_tree w self"
proof -
  have "recursion_limit (strip_hidden w) = recursion_limit w"
    by (simp add: strip_hidden_def)
  then show ?thesis
    by (simp add: generate_tree_def walk_directory_strip_hidden)
qed

lemma visible_sorted_all_hidden:
  "(\<And>e. e \<in> set listing \<Longrightarrow> hidden e) \<Longrightarrow> visible_sorted w listing = []"
  by (simp add: visible_sorted_def filter_empty_conv[THEN iffD2])

subsection \<open>The text of a successful walk, row by row\<close>

lemma initialised_init: "initialised (DirectoryTree_init root)"
  by (simp add: initialised_def DirectoryTree_init_def)

lemma initialised_tree_str [simp]: "initialised (self\<lparr>tree_str := t\<rparr>) = initialised self"
  by (simp add: initialised_def)

lemma initialised_line:
  "initialised self \<Longrightarrow>
   concat (map depth_group anc) @ (if flag then last_s self else tee self) @ name entry @ [10] =
   row_text (anc, flag, entry)"
  by (simp add: initialised_def connector_of_def)

lemma initialised_next_prefix:
  "initialised self \<Longrightarrow>
   concat (map depth_group anc) @ (if flag then ascii ''    '' else branch self) =
   concat (map depth_group (anc @ [flag]))"
  by (simp add: initialised_def depth_group_def ascii_def)

lemma for_entries_rows:
  assumes IH: "\<And>p anc' s s'. initialised s \<Longrightarrow>
      walk_directory w d p (concat (map depth_group anc')) s = (Inr (), s') \<Longrightarrow>
      tree_str s' = tree_str s @ concat (map row_text (rows w d p anc'))"
  shows "initialised self \<Longrightarrow>
    for_entries (walk_directory w d) (concat (map depth_group anc)) n ies self = (Inr (), self') \<Longrightarrow>
    initialised self' \<and>
    tree_str self' = tree_str self @
      concat (map row_text (concat (map (\<lambda>(idx, entry).
                 (anc, int idx = int n - 1, entry) #
                 (if is_dir entry
                  then rows w d (path entry) (anc @ [int idx = int n - 1])
                  else [])) ies)))"
proof (induction ies arbitrary: self)
  case Nil
  then show ?case by simp
next
  case (Cons ie ies)
  obtain idx entry where ie: "ie = (idx, entry)" by (cases ie)
  define flag where "flag = (int idx = int n - 1)"
  define self1 where "self1 = self\<lparr>tree_str := tree_str self @ row_text (anc, flag, entry)\<rparr>"
  have i1: "initialised self1"
    using Cons.prems(1) by (simp add: self1_def)
  show ?case
  proof (cases "is_dir entry")
    case False
    have "for_entries (walk_directory w d) (concat (map depth_group anc)) n ies self1 = (Inr (), self')"
      using Cons.prems(2) initialised_line[OF Cons.prems(1), of anc flag entry]
      unfolding ie for_entries_file[OF False] self1_def flag_def by simp
    from Cons.IH[OF i1 this] show ?thesis
      using False by (simp add: ie self1_def flag_def)
  next
    case True
    obtain r t where
      call: "walk_directory w d (path entry) (concat (map depth_group (anc @ [flag]))) self1 =
             (r, self1\<lparr>tree_str := tree_str self1 @ t\<rparr>)"
      by (rule walk_directory_appends)
    have step: "for_entries (walk_directory w d) (concat (map depth_group anc)) n (ie # ies) self =
        (case walk_directory w d (path entry) (concat (map depth_group (anc @ [flag]))) self1 of
           (Inl e, self2) \<Rightarrow> (Inl e, self2)
         | (Inr u, self2) \<Rightarrow>
             for_entries (walk_directory w d) (concat (map depth_group anc)) n ies self2)"
      using initialised_line[OF Cons.prems(1), of anc flag entry]
        initialised_next_prefix[OF Cons.prems(1), of anc flag]
      unfolding ie for_entries_dir[OF True] self1_def flag_def by simp
    from Cons.prems(2) have r: "r = Inr ()"
      unfolding step call by (cases r) simp_all
    define self2 where "self2 = self1\<lparr>tree_str := tree_str self1 @ t\<rparr>"
    have i2: "initialised self2"
      using i1 by (simp add: self2_def)
    have t2: "tree_str self2 =
              tree_str self1 @ concat (map row_text (rows w d (path entry) (anc @ [flag])))"
      using IH[OF i1] call unfolding r self2_def by blast
    have "for_entries (walk_directory w d) (concat (map depth_group anc)) n ies self2 = (Inr (), self')"
      using Cons.prems(2) unfolding step call r self2_def by simp
    from Cons.IH[OF i2 this] show ?thesis
      using True t2 by (simp add: ie self1_def flag_def)
  qed
qed

lemma rows_Suc:
  "os_scandir w p = Inr listing \<Longrightarrow>
   rows w (Suc d) p anc =
     concat (map (\<lambda>(idx, entry).
                 (anc, int idx = int (length (visible_sorted w listing)) - 1, entry) #
                 (if is_dir entry
                  then rows w d (path entry)
                         (anc @ [int idx = int (length (visible_sorted w listing)) - 1])
                  else []))
               (enumerate 0 (visible_sorted w listing)))"
  by (simp only: rows.simps sum.case Let_def)

lemma walk_directory_rows:
  "initialised self \<Longrightarrow>
   walk_directory w d p (concat (map depth_group anc)) self = (Inr (), self') \<Longrightarrow>
   tree_str self' = tree_str self @ concat (map row_text (rows w d p anc))"
proof (induction d arbitrary: p anc self self')
  case 0
  then show ?case by simp
next
  case (Suc d)
  show ?case
  proof (cases "os_scandir w p")
    case (Inl e)
    with Suc.prems show ?thesis by simp
  next
    case (Inr listing)
    have "for_entries (walk_directory w d) (concat (map depth_group anc))
            (length (visible_sorted w listing)) (enumerate 0 (visible_sorted w listing)) self =
          (Inr (), self')"
      using Suc.prems(2) unfolding walk_directory_visible_sorted[OF Inr] .
    from for_entries_rows[OF Suc.IH Suc.prems(1) this] show ?thesis
      unfolding rows_Suc[OF Inr] by (rule conjunct2)
  qed
qed


lemma rows_extend: "r \<in> set (rows w d p anc) \<Longrightarrow> take (length anc) (fst r) = anc"
proof (induction d arbitrary: p anc)
  case 0
  then show ?case by simp
next
  case (Suc d)
  show ?case
  proof (cases "os_scandir w p")
    case (Inl e)
    with Suc.prems show ?thesis by simp
  next
    case (Inr listing)
    define n where "n = length (visible_sorted w listing)"
    from Suc.prems obtain ie where
      ie: "ie \<in> set (enumerate 0 (visible_sorted w listing))" and
      r: "r \<in> set ((\<lambda>(idx, entry). (anc, int idx = int n - 1, entry) #
                 (if is_dir entry then rows w d (path entry) (anc @ [int idx = int n - 1])
                  else [])) ie)"
      unfolding rows_Suc[OF Inr] n_def set_concat set_map by blast
    obtain idx entry where p: "ie = (idx, entry)" by (cases ie)
    from r have "r = (anc, int idx = int n - 1, entry) \<or>
                 r \<in> set (rows w d (path entry) (anc @ [int idx = int n - 1]))"
      unfolding p by (cases "is_dir entry") simp_all
    then show ?thesis
    proof
      assume "r = (anc, int idx = int n - 1, entry)"
      then show ?thesis by simp
    next
      assume "r \<in> set (rows w d (path entry) (anc @ [int idx = int n - 1]))"
      from Suc.IH[OF this] have
        "take (Suc (length anc)) (fst r) = anc @ [int idx = int n - 1]"
        by simp
      then have "take (length anc) (take (Suc (length anc)) (fst r)) = anc"
        by simp
      then show ?thesis by (simp add: min_def)
    qed
  qed
qed

lemma depth_groups_length: "length (concat (map depth_group flags)) = 4 * length flags"
  by (induction flags) (simp_all add: depth_group_def)

lemma rows_text_last:
  "xs \<noteq> [] \<Longrightarrow> last xs = 10 \<Longrightarrow> last (xs @ concat (map row_text rs)) = 10"
proof (induction rs rule: rev_induct)
  case Nil
  then show ?case by simp
next
  case (snoc r rs)
  obtain flags flag entry where r: "r = (flags, flag, entry)" by (cases r)
  show ?case by (simp add: r)
qed

subsection \<open>\<^verbatim>\<open>generate_tree\<close> on a new object\<close>

lemma generate_tree_init:
  "fst (generate_tree w (DirectoryTree_init root)) =
     (case walk_directory w (recursion_limit w) (str_Path (Path root)) []
             ((DirectoryTree_init root)\<lparr>tree_str := str_Path (Path root) @ [10]\<rparr>) of
        (Inl e, s) \<Rightarrow> Inl e
      | (Inr u, s) \<Rightarrow> Inr (tree_str s))"
proof -
  have rd: "root_dir (DirectoryTree_init root) = Path root"
    by (simp add: DirectoryTree_init_def)
  obtain r s where
    c: "walk_directory w (recursion_limit w) (str_Path (Path root)) []
          ((DirectoryTree_init root)\<lparr>tree_str := str_Path (Path root) @ [10]\<rparr>) = (r, s)"
    by (cases "walk_directory w (recursion_limit w) (str_Path (Path root)) []
          ((DirectoryTree_init root)\<lparr>tree_str := str_Path (Path root) @ [10]\<rparr>)")
  show ?thesis
    unfolding generate_tree_def Let_def by (cases r) (simp_all add: rd c)
qed

lemma generate_tree_rows:
  assumes "fst (generate_tree w (DirectoryTree_init root)) = Inr out"
  shows "out = str_Path (Path root) @ [10] @
               concat (map row_text (rows w (recursion_limit w) (str_Path (Path root)) []))"
proof -
  define self1 where
    "self1 = (DirectoryTree_init root)\<lparr>tree_str := str_Path (Path root) @ [10]\<rparr>"
  obtain r s where
    c: "walk_directory w (recursion_limit w) (str_Path (Path root)) [] self1 = (r, s)"
    by (cases "walk_directory w (recursion_limit w) (str_Path (Path root)) [] self1")
  from assms have r: "r = Inr ()" and out: "out = tree_str s"
    unfolding generate_tree_init self1_def[symmetric] c by (cases r; simp)+
  have i: "initialised self1"
    by (simp add: self1_def initialised_init)
  have "walk_directory w (recursion_limit w) (str_Path (Path root))
          (concat (map depth_group [])) self1 = (Inr (), s)"
    using c r by simp
  from walk_directory_rows[OF i this] show ?thesis
    by (simp add: out self1_def)
qed

lemma generate_tree_limit_pos:
  assumes "fst (generate_tree w (DirectoryTree_init root)) = Inr out"
  shows "0 < recursion_limit w"
proof (rule ccontr)
  assume "\<not> 0 < recursion_limit w"
  then have "recursion_limit w = 0" by simp
  with assms show False
    unfolding generate_tree_init by simp
qed

subsection \<open>More of the example file system\<close>

lemma example_visible_root:
  "visible_sorted example_world
     [\<lparr>name = ascii ''.hidden'', path = ascii ''root/.hidden'', is_dir = True\<rparr>,
      \<lparr>name = ascii ''b.txt'', path = ascii ''root/b.txt'', is_dir = False\<rparr>,
      \<lparr>name = ascii ''A'', path = ascii ''root/A'', is_dir = True\<rparr>] =
   [\<lparr>name = ascii ''A'', path = ascii ''root/A'', is_dir = True\<rparr>,
    \<lparr>name = ascii ''b.txt'', path = ascii ''root/b.txt'', is_dir = False\<rparr>]"
  unfolding entries_either_order[symmetric] by (rule example_root_entries)

lemma example_visible_A:
  "visible_sorted example_world
     [\<lparr>name = ascii ''c.txt'', path = ascii ''root/A/c.txt'', is_dir = False\<rparr>] =
   [\<lparr>name = ascii ''c.txt'', path = ascii ''root/A/c.txt'', is_dir = False\<rparr>]"
  unfolding entries_either_order[symmetric] by (rule example_A_entries)

lemma example_rows_A:
  "rows example_world (Suc d) (ascii ''root/A'') anc =
     [(anc, True, \<lparr>name = ascii ''c.txt'', path = ascii ''root/A/c.txt'', is_dir = False\<rparr>)]"
  unfolding rows_Suc[OF example_A_listing] example_visible_A by simp

lemma example_rows_root:
  assumes "2 \<le> d"
  shows "rows example_world d (ascii ''root'') anc =
     [(anc, False, \<lparr>name = ascii ''A'', path = ascii ''root/A'', is_dir = True\<rparr>),
      (anc @ [False], True,
         \<lparr>name = ascii ''c.txt'', path = ascii ''root/A/c.txt'', is_dir = False\<rparr>),
      (anc, True, \<lparr>name = ascii ''b.txt'', path = ascii ''root/b.txt'', is_dir = False\<rparr>)]"
proof -
  from assms obtain k where d: "d = Suc (Suc k)"
    by (metis Suc_le_D numeral_2_eq_2 Suc_le_mono)
  show ?thesis
    unfolding d rows_Suc[OF example_root_listing] example_visible_root
    by (simp add: example_rows_A del: rows.simps)
qed

lemma example_slash_path: "str_Path (Path (ascii ''root/'')) = ascii ''root''"
  by (simp add: str_Path_def Path_def splitroot_def ascii_def)

lemma example_generate_root:
  "fst (generate_tree example_world (DirectoryTree_init (ascii ''root''))) = Inr example_tree"
  unfolding generate_tree_init example_root_path example_limit
  by (simp add: example_walk_root DirectoryTree_init_def example_tree_def)

lemma example_generate_slash:
  "fst (generate_tree example_world (DirectoryTree_init (ascii ''root/''))) = Inr example_tree"
  unfolding generate_tree_init example_slash_path example_limit
  by (simp add: example_walk_root DirectoryTree_init_def example_tree_def)

lemma example_hidden_path:
  "str_Path (Path (ascii ''root/.hidden'')) = ascii ''root/.hidden''"
  by (simp add: str_Path_def Path_def splitroot_def ascii_def)

lemma example_hidden_listing:
  "os_scandir example_world (ascii ''root/.hidden'') =
     Inr [\<lparr>name = ascii ''.keep'', path = ascii ''root/.hidden/.keep'', is_dir = False\<rparr>,
          \<lparr>name = ascii ''.cache'', path = ascii ''root/.hidden/.cache'', is_dir = True\<rparr>]"
  by (simp add: example_world_def example_scandir_def ascii_def)

lemma example_cache_path:
  "str_Path (Path (ascii ''root/.hidden/.cache'')) = ascii ''root/.hidden/.cache''"
  by (simp add: str_Path_def Path_def splitroot_def ascii_def)

lemma example_cache_name:
  "Path_name (Path (ascii ''root/.hidden/.cache'')) = ascii ''.cache''"
  by (simp add: Path_name_def Path_def splitroot_def ascii_def)

lemma example_cache_listing:
  "os_scandir example_world (ascii ''root/.hidden/.cache'') =
     Inr [\<lparr>name = ascii ''data'', path = ascii ''root/.hidden/.cache/data'', is_dir = False\<rparr>]"
  by (simp add: example_world_def example_scandir_def ascii_def)

lemma example_visible_cache:
  "visible_sorted example_world
     [\<lparr>name = ascii ''data'', path = ascii ''root/.hidden/.cache/data'', is_dir = False\<rparr>] =
   [\<lparr>name = ascii ''data'', path = ascii ''root/.hidden/.cache/data'', is_dir = False\<rparr>]"
  by (simp add: visible_sorted_def hidden_def startswith_def ascii_def)

lemma example_walk_cache:
  "walk_directory example_world (Suc d) (ascii ''root/.hidden/.cache'') prefix self =
     (Inr (), self\<lparr>tree_str := tree_str self @ prefix @ last_s self @ ascii ''data'' @ [10]\<rparr>)"
  unfolding walk_directory_visible_sorted[OF example_cache_listing] example_visible_cache
  by (simp add: for_entries_file)

lemma example_generate_cache:
  "fst (generate_tree example_world (DirectoryTree_init (ascii ''root/.hidden/.cache''))) =
     Inr (ascii ''root/.hidden/.cache'' @ [10] @
          [0x2514, 0x2500, 0x2500, 32] @ ascii ''data'' @ [10])"
proof -
  have l: "recursion_limit example_world = Suc 999"
    by (simp add: example_world_def)
  show ?thesis
    unfolding generate_tree_init example_cache_path l example_walk_cache
    by (simp add: DirectoryTree_init_def)
qed

subsection \<open>Hidden entries and the last sibling\<close>

lemma generate_tree_all_hidden:
  assumes "0 < recursion_limit w"
    and "os_scandir w (str_Path (Path root)) = Inr listing"
    and "\<And>e. e \<in> set listing \<Longrightarrow> hidden e"
  shows "fst (generate_tree w (DirectoryTree_init root)) = Inr (str_Path (Path root) @ [10])"
proof -
  from assms(1) obtain k where k: "recursion_limit w = Suc k"
    by (cases "recursion_limit w") simp_all
  have v: "visible_sorted w listing = []"
    using assms(3) by (rule visible_sorted_all_hidden)
  show ?thesis
    unfolding generate_tree_init k walk_directory_visible_sorted[OF assms(2)] v
    by simp
qed

text \<open>
  C5. Hidden entries are excluded before the index of the last sibling is computed: the
  outcome of \<^verbatim>\<open>generate_tree\<close> is the outcome in the file system whose listings have no
  hidden entries at all, so no connector depends on a hidden entry. In particular, a
  root that lists only hidden entries is rendered as the root line alone.
\<close>

theorem hidden_entries_do_not_count:
  "generate_tree (strip_hidden w) self = generate_tree w self \<and>
   (0 < recursion_limit w \<longrightarrow>
    os_scandir w (str_Path (Path root)) = Inr listing \<longrightarrow>
    (\<forall>e \<in> set listing. hidden e) \<longrightarrow>
    fst (generate_tree w (DirectoryTree_init root)) = Inr (str_Path (Path root) @ [10]))"
  using generate_tree_strip_hidden generate_tree_all_hidden by blast

theorem hidden_entries_do_not_count_witness:
  "generate_tree (strip_hidden example_world) (DirectoryTree_init (ascii ''root'')) =
     generate_tree example_world (DirectoryTree_init (ascii ''root'')) \<and>
   fst (generate_tree example_world (DirectoryTree_init (ascii ''root/.hidden''))) =
     Inr (ascii ''root/.hidden'' @ [10])"
proof -
  have h: "\<forall>e \<in> set [\<lparr>name = ascii ''.keep'', path = ascii ''root/.hidden/.keep'', is_dir = False\<rparr>,
          \<lparr>name = ascii ''.cache'', path = ascii ''root/.hidden/.cache'', is_dir = True\<rparr>]. hidden e"
    by (simp add: hidden_def startswith_def ascii_def)
  show ?thesis
    using hidden_entries_do_not_count[of example_world "DirectoryTree_init (ascii ''root'')"
        "ascii ''root/.hidden''"
        "[\<lparr>name = ascii ''.keep'', path = ascii ''root/.hidden/.keep'', is_dir = False\<rparr>,
          \<lparr>name = ascii ''.cache'', path = ascii ''root/.hidden/.cache'', is_dir = True\<rparr>]"]
      h
    unfolding example_hidden_path example_limit
    by (simp add: example_hidden_listing)
qed

subsection \<open>The depth prefix\<close>

text \<open>
  C7. Every call of \<^verbatim>\<open>_walk_directory\<close> whose prefix consists of one four-character
  group for each ancestor appends, when it returns, exactly the lines of the rows below its
  directory: the line of an entry has one group for each directory it is nested in (four
  spaces below a last sibling, the bar and three spaces otherwise), then the connector
  and the name. The rows of the call keep the groups the call was given, so the shape is
  kept by every recursive step; \<^verbatim>\<open>generate_tree\<close> starts with no group.
\<close>

theorem depth_prefix_invariant:
  assumes "initialised self"
    and "walk_directory w d p (concat (map depth_group anc)) self = (Inr (), self')"
  shows "tree_str self' = tree_str self @ concat (map row_text (rows w d p anc)) \<and>
         (\<forall>r \<in> set (rows w d p anc).
            take (length anc) (fst r) = anc \<and>
            length (concat (map depth_group (fst r))) = 4 * length (fst r))"
  using walk_directory_rows[OF assms] rows_extend depth_groups_length by blast

theorem depth_prefix_invariant_witness:
  "tree_str (snd (walk_directory example_world 1000 (ascii ''root'') []
                    (DirectoryTree_init (ascii ''root'')))) =
     concat (map row_text
       [([], False, \<lparr>name = ascii ''A'', path = ascii ''root/A'', is_dir = True\<rparr>),
        ([False], True, \<lparr>name = ascii ''c.txt'', path = ascii ''root/A/c.txt'', is_dir = False\<rparr>),
        ([], True, \<lparr>name = ascii ''b.txt'', path = ascii ''root/b.txt'', is_dir = False\<rparr>)])"
proof -
  have w: "walk_directory example_world 1000 (ascii ''root'') (concat (map depth_group []))
             (DirectoryTree_init (ascii ''root'')) =
           (Inr (), snd (walk_directory example_world 1000 (ascii ''root'') []
                    (DirectoryTree_init (ascii ''root''))))"
    by (simp add: example_walk_root)
  have r: "rows example_world 1000 (ascii ''root'') [] =
       [([], False, \<lparr>name = ascii ''A'', path = ascii ''root/A'', is_dir = True\<rparr>),
        ([False], True, \<lparr>name = ascii ''c.txt'', path = ascii ''root/A/c.txt'', is_dir = False\<rparr>),
        ([], True, \<lparr>name = ascii ''b.txt'', path = ascii ''root/b.txt'', is_dir = False\<rparr>)]"
    by (simp add: example_rows_root)
  have t: "tree_str (DirectoryTree_init (ascii ''root'')) = []"
    by (simp add: DirectoryTree_init_def)
  show ?thesis
    using depth_prefix_invariant[OF initialised_init w, THEN conjunct1]
    unfolding r t by simp
qed

subsection \<open>The root line\<close>

text \<open>
  C3, as the code has it. The first line of the text that \<^verbatim>\<open>generate_tree\<close> returns is
  \<^verbatim>\<open>str(Path(root))\<close>: the root path without its redundant slashes and \<^verbatim>\<open>.\<close> components
  (\<^verbatim>\<open>.\<close> for the empty path), which is the caller's string only when that has this form
  already. One line for each visible entry reachable by recursive descent follows.
\<close>

theorem root_line_then_rows:
  assumes "fst (generate_tree w (DirectoryTree_init root)) = Inr out"
  shows "out = str_Path (Path root) @ [10] @
               concat (map row_text (rows w (recursion_limit w) (str_Path (Path root)) []))"
  using assms by (rule generate_tree_rows)

theorem root_line_then_rows_witness:
  "fst (generate_tree example_world (DirectoryTree_init (ascii ''root/''))) = Inr example_tree \<and>
   example_tree = ascii ''root'' @ [10] @
     concat (map row_text
       [([], False, \<lparr>name = ascii ''A'', path = ascii ''root/A'', is_dir = True\<rparr>),
        ([False], True, \<lparr>name = ascii ''c.txt'', path = ascii ''root/A/c.txt'', is_dir = False\<rparr>),
        ([], True, \<lparr>name = ascii ''b.txt'', path = ascii ''root/b.txt'', is_dir = False\<rparr>)])"
proof -
  have r: "rows example_world 1000 (ascii ''root'') [] =
       [([], False, \<lparr>name = ascii ''A'', path = ascii ''root/A'', is_dir = True\<rparr>),
        ([False], True, \<lparr>name = ascii ''c.txt'', path = ascii ''root/A/c.txt'', is_dir = False\<rparr>),
        ([], True, \<lparr>name = ascii ''b.txt'', path = ascii ''root/b.txt'', is_dir = False\<rparr>)]"
    by (simp add: example_rows_root)
  show ?thesis
    using root_line_then_rows[OF example_generate_slash]
    unfolding example_slash_path example_limit r
    by (simp add: example_generate_slash)
qed

text \<open>
  The claim as the specification states it fails: for the argument \<^verbatim>\<open>root/\<close> the first
  line is \<^verbatim>\<open>root\<close>, not the caller's string.
\<close>

theorem root_line_not_verbatim:
  "fst (generate_tree example_world (DirectoryTree_init (ascii ''root/''))) = Inr example_tree \<and>
   first_line example_tree = ascii ''root'' \<and>
   first_line example_tree \<noteq> ascii ''root/''"
  by (simp add: example_generate_slash) (simp add: example_tree_def ascii_def)

subsection \<open>A root with a hidden name\<close>

lemma visible_child_has_row:
  assumes "os_scandir w p = Inr listing" and "e \<in> set listing" and "\<not> hidden e"
  shows "\<exists>flag. (anc, flag, e) \<in> set (rows w (Suc d) p anc)"
proof -
  define n where "n = length (visible_sorted w listing)"
  from assms(2,3) have "e \<in> set (visible_sorted w listing)"
    by (simp add: visible_sorted_def)
  then obtain i where i: "i < n" "visible_sorted w listing ! i = e"
    unfolding n_def in_set_conv_nth by blast
  then have m: "(i, e) \<in> set (enumerate 0 (visible_sorted w listing))"
    by (simp add: in_set_enumerate_eq n_def)
  have "(anc, int i = int n - 1, e) \<in>
        set ((\<lambda>(idx, entry). (anc, int idx = int n - 1, entry) #
                 (if is_dir entry then rows w d (path entry) (anc @ [int idx = int n - 1])
                  else [])) (i, e))"
    by simp
  with m have "(anc, int i = int n - 1, e) \<in> set (rows w (Suc d) p anc)"
    unfolding rows_Suc[OF assms(1)] n_def set_concat set_map by blast
  then show ?thesis by blast
qed

text \<open>
  C10. The exclusion of hidden names is applied to the children met during the walk and
  never to the root: for a root whose final component begins with \<^verbatim>\<open>.\<close>, the text that
  \<^verbatim>\<open>generate_tree\<close> returns is the root line followed by the rows below the root, as for
  any other root, and every visible child of the root has its row there, directly below
  the root.
\<close>

theorem hidden_root_is_rendered:
  assumes "startswith (Path_name (Path root)) (ascii ''.'')"
    and "fst (generate_tree w (DirectoryTree_init root)) = Inr out"
  shows "out = str_Path (Path root) @ [10] @
               concat (map row_text (rows w (recursion_limit w) (str_Path (Path root)) [])) \<and>
         (\<forall>listing. os_scandir w (str_Path (Path root)) = Inr listing \<longrightarrow>
            (\<forall>e \<in> set listing. \<not> hidden e \<longrightarrow>
               (\<exists>flag. ([], flag, e) \<in>
                  set (rows w (recursion_limit w) (str_Path (Path root)) []))))"
proof -
  from generate_tree_limit_pos[OF assms(2)] obtain k where k: "recursion_limit w = Suc k"
    by (cases "recursion_limit w") simp_all
  show ?thesis
    using generate_tree_rows[OF assms(2)] visible_child_has_row[of w "str_Path (Path root)"]
    unfolding k by blast
qed

theorem hidden_root_is_rendered_witness:
  "startswith (Path_name (Path (ascii ''root/.hidden/.cache''))) (ascii ''.'') \<and>
   fst (generate_tree example_world (DirectoryTree_init (ascii ''root/.hidden/.cache''))) =
     Inr (ascii ''root/.hidden/.cache'' @ [10] @
          [0x2514, 0x2500, 0x2500, 32] @ ascii ''data'' @ [10]) \<and>
   (\<exists>flag. ([], flag,
        \<lparr>name = ascii ''data'', path = ascii ''root/.hidden/.cache/data'', is_dir = False\<rparr>) \<in>
      set (rows example_world 1000 (ascii ''root/.hidden/.cache'') []))"
proof -
  have s: "startswith (Path_name (Path (ascii ''root/.hidden/.cache''))) (ascii ''.'')"
    unfolding example_cache_name by (simp add: startswith_def ascii_def)
  have v: "\<not> hidden \<lparr>name = ascii ''data'', path = ascii ''root/.hidden/.cache/data'', is_dir = False\<rparr>"
    by (simp add: hidden_def startswith_def ascii_def)
  show ?thesis
    using hidden_root_is_rendered[OF s example_generate_cache, THEN conjunct2, rule_format,
        OF _ _ v, of "[\<lparr>name = ascii ''data'', path = ascii ''root/.hidden/.cache/data'', is_dir = False\<rparr>]"]
      s example_generate_cache
    unfolding example_cache_path example_limit
    by (simp add: example_cache_listing)
qed

subsection \<open>Standard output\<close>

text \<open>
  C4, as the code has it. When \<^verbatim>\<open>generate_tree\<close> returns, the text written to standard
  output is the rendered tree, which ends with the newline of its last line, followed by
  the newline that \<^verbatim>\<open>print\<close> adds: the output ends with an empty line.
\<close>

theorem stdout_is_tree_and_newline:
  assumes "fst (generate_tree w (DirectoryTree_init p)) = Inr s"
  shows "print_directory_tree w p = Inr (s @ [10]) \<and> s \<noteq> [] \<and> last s = 10"
proof -
  have "last ((str_Path (Path p) @ [10]) @
              concat (map row_text (rows w (recursion_limit w) (str_Path (Path p)) []))) = 10"
    by (rule rows_text_last) simp_all
  then show ?thesis
    using generate_tree_rows[OF assms] assms
    by (simp add: print_directory_tree_def py_print_def)
qed

theorem stdout_is_tree_and_newline_witness:
  "print_directory_tree example_world (ascii ''root'') = Inr (example_tree @ [10]) \<and>
   example_tree \<noteq> [] \<and> last example_tree = 10"
  using stdout_is_tree_and_newline[OF example_generate_root] by simp

text \<open>
  The claim as the specification states it fails: after the tree of the example, standard
  output holds one more newline.
\<close>

theorem stdout_not_tree_alone:
  "fst (generate_tree example_world (DirectoryTree_init (ascii ''root''))) = Inr example_tree \<and>
   print_directory_tree example_world (ascii ''root'') = Inr (example_tree @ [10]) \<and>
   print_directory_tree example_world (ascii ''root'') \<noteq> Inr example_tree"
  by (simp add: print_directory_tree_def py_print_def example_generate_root)

subsection \<open>Errors of the walk\<close>
















subsection \<open>The order of siblings\<close>

lemma for_entries_segment_ok:
  assumes "for_entries (walk_directory w d) prefix n (xs @ ys) (self\<lparr>tree_str := t\<rparr>) =
             (Inr (), self')"
  obtains seg where
    "for_entries (walk_directory w d) prefix n ys (self\<lparr>tree_str := t @ seg\<rparr>) = (Inr (), self')"
proof -
  obtain r seg where
    x: "for_entries (walk_directory w d) prefix n xs (self\<lparr>tree_str := t\<rparr>) =
          (r, self\<lparr>tree_str := t\<rparr>\<lparr>tree_str := tree_str (self\<lparr>tree_str := t\<rparr>) @ seg\<rparr>)"
    by (rule for_entries_walk_appends)
  from assms have "r = Inr ()"
    unfolding for_entries_append x by (cases r) simp_all
  with assms have
    "for_entries (walk_directory w d) prefix n ys (self\<lparr>tree_str := t @ seg\<rparr>) = (Inr (), self')"
    unfolding for_entries_append x by simp
  then show thesis by (rule that)
qed

lemma for_entries_step_ok:
  assumes "for_entries (walk_directory w d) prefix n ((idx, entry) # rest)
             (self\<lparr>tree_str := t\<rparr>) = (Inr (), self')"
  obtains sub where
    "if is_dir entry
     then walk_directory w d (path entry)
            (prefix @ (if int idx = int n - 1 then ascii ''    '' else branch self))
            (self\<lparr>tree_str := t @ prefix @
               (if int idx = int n - 1 then last_s self else tee self) @ name entry @ [10]\<rparr>) =
          (Inr (), self\<lparr>tree_str := t @ prefix @
               (if int idx = int n - 1 then last_s self else tee self) @ name entry @ [10] @ sub\<rparr>)
     else sub = []"
    and "for_entries (walk_directory w d) prefix n rest
           (self\<lparr>tree_str := t @ prefix @
               (if int idx = int n - 1 then last_s self else tee self) @ name entry @ [10] @ sub\<rparr>) =
         (Inr (), self')"
proof -
  define c where "c = (if int idx = int n - 1 then last_s self else tee self)"
  define np where "np = prefix @ (if int idx = int n - 1 then ascii ''    '' else branch self)"
  define s1 where "s1 = self\<lparr>tree_str := t @ prefix @ c @ name entry @ [10]\<rparr>"
  show thesis
  proof (cases "is_dir entry")
    case False
    have "for_entries (walk_directory w d) prefix n ((idx, entry) # rest) (self\<lparr>tree_str := t\<rparr>) =
          for_entries (walk_directory w d) prefix n rest s1"
      unfolding for_entries_file[OF False] s1_def c_def by simp
    with assms have "for_entries (walk_directory w d) prefix n rest s1 = (Inr (), self')"
      by simp
    then show thesis
      using False that[of "[]"] unfolding s1_def c_def by simp
  next
    case True
    obtain r sub where
      call: "walk_directory w d (path entry) np s1 = (r, s1\<lparr>tree_str := tree_str s1 @ sub\<rparr>)"
      by (rule walk_directory_appends)
    have step: "for_entries (walk_directory w d) prefix n ((idx, entry) # rest)
                  (self\<lparr>tree_str := t\<rparr>) =
        (case walk_directory w d (path entry) np s1 of
           (Inl e, self2) \<Rightarrow> (Inl e, self2)
         | (Inr u, self2) \<Rightarrow> for_entries (walk_directory w d) prefix n rest self2)"
      unfolding for_entries_dir[OF True] s1_def c_def np_def by simp
    from assms have r: "r = Inr ()"
      unfolding step call by (cases r) simp_all
    from assms have
      "for_entries (walk_directory w d) prefix n rest (s1\<lparr>tree_str := tree_str s1 @ sub\<rparr>) =
       (Inr (), self')"
      unfolding step call r by simp
    then show thesis
      using True call[unfolded r] that[of sub] unfolding s1_def c_def np_def by simp
  qed
qed

lemma sorted_key_decompose:
  assumes "sorted (map f es)" and "a \<in> set es" and "b \<in> set es" and "f a < f b"
  obtains us vs ws where "es = us @ a # vs @ b # ws"
proof -
  from assms(2) obtain us rest where es: "es = us @ a # rest"
    by (meson split_list)
  have "b \<notin> set us"
  proof
    assume "b \<in> set us"
    with assms(1) have "f b \<le> f a"
      unfolding es by (simp add: sorted_append)
    with assms(4) show False by simp
  qed
  moreover from assms(4) have "b \<noteq> a" by auto
  ultimately have "b \<in> set rest"
    using assms(3) unfolding es by simp
  then obtain vs ws where "rest = vs @ b # ws"
    by (meson split_list)
  with es have "es = us @ a # vs @ b # ws" by simp
  then show thesis by (rule that)
qed

text \<open>
  C6. In every call of \<^verbatim>\<open>_walk_directory\<close> that returns, for visible entries \<open>a\<close> and
  \<open>b\<close> of the directory with \<open>lower(a.name) < lower(b.name)\<close>: the text appended by the call
  contains the line of \<open>a\<close> (with the connector of a sibling that is not the last), directly
  followed by everything the recursive call for \<open>a\<close> appends (nothing when \<open>a\<close> is not a
  directory), and the line of \<open>b\<close> only after that.
\<close>

theorem siblings_in_key_order:
  assumes L: "os_scandir w p = Inr listing"
    and a: "a \<in> set listing" and b: "b \<in> set listing"
    and va: "\<not> hidden a" and vb: "\<not> hidden b"
    and lt: "str_lower w (name a) < str_lower w (name b)"
    and ok: "walk_directory w (Suc d) p prefix self = (Inr (), self')"
  shows "\<exists>pre sub mid c post.
      tree_str self' =
        tree_str self @ pre @ (prefix @ tee self @ name a @ [10]) @ sub @ mid @
        (prefix @ c @ name b @ [10]) @ post \<and>
      (c = tee self \<or> c = last_s self) \<and>
      (if is_dir a
       then walk_directory w d (path a) (prefix @ branch self)
              (self\<lparr>tree_str := tree_str self @ pre @ prefix @ tee self @ name a @ [10]\<rparr>) =
            (Inr (), self\<lparr>tree_str :=
                       tree_str self @ pre @ prefix @ tee self @ name a @ [10] @ sub\<rparr>)
       else sub = [])"
proof -
  define es where "es = visible_sorted w listing"
  define n where "n = length es"
  have "sorted (map (\<lambda>e. str_lower w (name e)) es)"
    by (simp add: es_def visible_sorted_def)
  moreover have "a \<in> set es" and "b \<in> set es"
    using a b va vb by (simp_all add: es_def visible_sorted_def)
  ultimately obtain us vs ws where es: "es = us @ a # vs @ b # ws"
    using lt by (rule sorted_key_decompose[where f = "\<lambda>e. str_lower w (name e)"])
  define i where "i = length us"
  define j where "j = Suc (i + length vs)"
  have enum: "enumerate 0 es =
      enumerate 0 us @ (i, a) # (enumerate (Suc i) vs @ (j, b) # enumerate (Suc j) ws)"
    by (simp add: es enumerate_append_eq i_def j_def)
  have n: "n = Suc j + length ws"
    by (simp add: n_def es i_def j_def)
  then have ni: "int i \<noteq> int n - 1"
    by (simp add: j_def)
  have run: "for_entries (walk_directory w d) prefix n
               (enumerate 0 us @ (i, a) # (enumerate (Suc i) vs @ (j, b) # enumerate (Suc j) ws))
               (self\<lparr>tree_str := tree_str self\<rparr>) = (Inr (), self')"
    using ok unfolding walk_directory_visible_sorted[OF L] es_def[symmetric] n_def[symmetric] enum
    by simp
  from run obtain pre where
    r1: "for_entries (walk_directory w d) prefix n
           ((i, a) # (enumerate (Suc i) vs @ (j, b) # enumerate (Suc j) ws))
           (self\<lparr>tree_str := tree_str self @ pre\<rparr>) = (Inr (), self')"
    by (rule for_entries_segment_ok)
  define t1 where "t1 = tree_str self @ pre @ prefix @ tee self @ name a @ [10]"
  obtain sub where
    raw1: "if is_dir a
         then walk_directory w d (path a)
                (prefix @ (if int i = int n - 1 then ascii ''    '' else branch self))
                (self\<lparr>tree_str := (tree_str self @ pre) @ prefix @
                   (if int i = int n - 1 then last_s self else tee self) @ name a @ [10]\<rparr>) =
              (Inr (), self\<lparr>tree_str := (tree_str self @ pre) @ prefix @
                   (if int i = int n - 1 then last_s self else tee self) @ name a @ [10] @ sub\<rparr>)
         else sub = []"
    and raw2: "for_entries (walk_directory w d) prefix n
           (enumerate (Suc i) vs @ (j, b) # enumerate (Suc j) ws)
           (self\<lparr>tree_str := (tree_str self @ pre) @ prefix @
               (if int i = int n - 1 then last_s self else tee self) @ name a @ [10] @ sub\<rparr>) =
         (Inr (), self')"
    using r1 by (rule for_entries_step_ok)
  have sa: "if is_dir a
         then walk_directory w d (path a) (prefix @ branch self) (self\<lparr>tree_str := t1\<rparr>) =
              (Inr (), self\<lparr>tree_str := t1 @ sub\<rparr>)
         else sub = []"
    using raw1 ni by (cases "is_dir a") (simp_all add: t1_def)
  have r2: "for_entries (walk_directory w d) prefix n
           (enumerate (Suc i) vs @ (j, b) # enumerate (Suc j) ws)
           (self\<lparr>tree_str := t1 @ sub\<rparr>) = (Inr (), self')"
    using raw2 ni by (simp add: t1_def)
  from r2 obtain mid where
    r3: "for_entries (walk_directory w d) prefix n ((j, b) # enumerate (Suc j) ws)
           (self\<lparr>tree_str := (t1 @ sub) @ mid\<rparr>) = (Inr (), self')"
    by (rule for_entries_segment_ok)
  define c where "c = (if int j = int n - 1 then last_s self else tee self)"
  define t2 where "t2 = ((t1 @ sub) @ mid) @ prefix @ c @ name b @ [10]"
  obtain subb where
    "for_entries (walk_directory w d) prefix n (enumerate (Suc j) ws)
       (self\<lparr>tree_str := ((t1 @ sub) @ mid) @ prefix @
          (if int j = int n - 1 then last_s self else tee self) @ name b @ [10] @ subb\<rparr>) =
     (Inr (), self')"
    using r3 by (rule for_entries_step_ok)
  then have
    r4: "for_entries (walk_directory w d) prefix n (enumerate (Suc j) ws)
           (self\<lparr>tree_str := t2 @ subb\<rparr>) = (Inr (), self')"
    by (simp add: t2_def c_def)
  obtain r tl where
    "for_entries (walk_directory w d) prefix n (enumerate (Suc j) ws)
       (self\<lparr>tree_str := t2 @ subb\<rparr>) =
     (r, self\<lparr>tree_str := t2 @ subb\<rparr>\<lparr>tree_str :=
           tree_str (self\<lparr>tree_str := t2 @ subb\<rparr>) @ tl\<rparr>)"
    by (rule for_entries_walk_appends)
  with r4 have "tree_str self' = (t2 @ subb) @ tl"
    by auto
  then have whole: "tree_str self' =
      tree_str self @ pre @ (prefix @ tee self @ name a @ [10]) @ sub @ mid @
      (prefix @ c @ name b @ [10]) @ (subb @ tl)"
    by (simp add: t2_def t1_def)
  have c: "c = tee self \<or> c = last_s self"
    by (simp add: c_def)
  from whole c sa show ?thesis
    unfolding t1_def append_assoc by blast
qed

theorem siblings_in_key_order_witness:
  "\<exists>pre sub mid c post.
     tree_str (snd (walk_directory example_world (Suc (Suc 998)) (ascii ''root'') []
                      (DirectoryTree_init (ascii ''root'')))) =
       pre @ ([0x251C, 0x2500, 0x2500, 32] @ ascii ''A'' @ [10]) @ sub @ mid @
       (c @ ascii ''b.txt'' @ [10]) @ post \<and>
     sub = [0x2502, 32, 32, 32] @ [0x2514, 0x2500, 0x2500, 32] @ ascii ''c.txt'' @ [10]"
proof -
  define self where "self = DirectoryTree_init (ascii ''root'')"
  define ea where "ea = \<lparr>name = ascii ''A'', path = ascii ''root/A'', is_dir = True\<rparr>"
  define eb where "eb = \<lparr>name = ascii ''b.txt'', path = ascii ''root/b.txt'', is_dir = False\<rparr>"
  have glyphs: "tree_str self = []" "tee self = [0x251C, 0x2500, 0x2500, 32]"
    "branch self = [0x2502, 32, 32, 32]" "last_s self = [0x2514, 0x2500, 0x2500, 32]"
    by (simp_all add: self_def DirectoryTree_init_def)
  have fields: "name ea = ascii ''A''" "path ea = ascii ''root/A''" "is_dir ea = True"
    "name eb = ascii ''b.txt''"
    by (simp_all add: ea_def eb_def)
  have m: "ea \<in> set [\<lparr>name = ascii ''.hidden'', path = ascii ''root/.hidden'', is_dir = True\<rparr>, eb, ea]"
    "eb \<in> set [\<lparr>name = ascii ''.hidden'', path = ascii ''root/.hidden'', is_dir = True\<rparr>, eb, ea]"
    by simp_all
  have v: "\<not> hidden ea" "\<not> hidden eb"
    by (simp_all add: ea_def eb_def hidden_def startswith_def ascii_def)
  have lt: "str_lower example_world (name ea) < str_lower example_world (name eb)"
    by (simp add: ea_def eb_def example_world_def lower_ascii_def ascii_def)
  define out where "out = self\<lparr>tree_str := tree_str self @ [] @ tee self @ ascii ''A'' @ [10]
         @ [] @ branch self @ last_s self @ ascii ''c.txt'' @ [10]
         @ [] @ last_s self @ ascii ''b.txt'' @ [10]\<rparr>"
  have ok: "walk_directory example_world (Suc (Suc 998)) (ascii ''root'') [] self = (Inr (), out)"
    unfolding out_def by (rule example_walk_root) simp
  from siblings_in_key_order[OF example_root_listing[folded ea_def eb_def] m v lt ok]
  obtain pre sub mid c post where
    whole: "tree_str out =
        tree_str self @ pre @ ([] @ tee self @ name ea @ [10]) @ sub @ mid @
        ([] @ c @ name eb @ [10]) @ post"
    and sub: "if is_dir ea
       then walk_directory example_world (Suc 998) (path ea) ([] @ branch self)
              (self\<lparr>tree_str := tree_str self @ pre @ [] @ tee self @ name ea @ [10]\<rparr>) =
            (Inr (), self\<lparr>tree_str :=
                       tree_str self @ pre @ [] @ tee self @ name ea @ [10] @ sub\<rparr>)
       else sub = []"
    by blast
  from sub have
    "(Inr (), self\<lparr>tree_str := tree_str self @ pre @ [] @ tee self @ name ea @ [10]\<rparr>
        \<lparr>tree_str := tree_str (self\<lparr>tree_str :=
             tree_str self @ pre @ [] @ tee self @ name ea @ [10]\<rparr>) @
           ([] @ branch self) @
           last_s (self\<lparr>tree_str := tree_str self @ pre @ [] @ tee self @ name ea @ [10]\<rparr>) @
           ascii ''c.txt'' @ [10]\<rparr>) =
     (Inr () :: exn + unit, self\<lparr>tree_str :=
                       tree_str self @ pre @ [] @ tee self @ name ea @ [10] @ sub\<rparr>)"
    unfolding fields if_True example_walk_A .
  from this[THEN arg_cong[where f = "\<lambda>x. tree_str (snd x)"]]
  have "tree_str self @ pre @ tee self @ ascii ''A'' @ [10] @ branch self @ last_s self @
               ascii ''c.txt'' @ [10] =
             tree_str self @ pre @ tee self @ ascii ''A'' @ [10] @ sub"
    by (simp add: fields)
  then have s: "sub = [0x2502, 32, 32, 32] @ [0x2514, 0x2500, 0x2500, 32] @ ascii ''c.txt'' @ [10]"
    by (simp add: glyphs)
  have "tree_str (snd (walk_directory example_world (Suc (Suc 998)) (ascii ''root'') [] self)) =
       pre @ ([0x251C, 0x2500, 0x2500, 32] @ ascii ''A'' @ [10]) @ sub @ mid @
       (c @ ascii ''b.txt'' @ [10]) @ post"
    unfolding ok using whole by (simp add: glyphs fields)
  with s show ?thesis
    unfolding self_def by blast
qed

end
